theory Spec2Isabelle
  imports Main
begin

section \<open>Strings\<close>

text \<open>
  A Python \<open>str\<close> is modelled as a \<open>string\<close>: a list of characters, each standing for
  one code point below 256. \<open>length\<close> therefore counts what Python's \<open>len\<close> and slicing
  count, and the characters \<open><\<close> and \<open>>\<close> are single elements of the list.
\<close>

definition isspace :: "char \<Rightarrow> bool" where
  \<comment> \<open>\<open>str.isspace\<close> on one code point below 256: TAB..CR, FS..US, SPACE, NEL, NBSP.\<close>
  "isspace c = ((of_char c :: nat) \<in> {9, 10, 11, 12, 13, 28, 29, 30, 31, 32, 133, 160})"

definition str_strip :: "string \<Rightarrow> string" where
  \<comment> \<open>\<open>s.strip()\<close>: leading and trailing whitespace removed.\<close>
  "str_strip s = rev (dropWhile isspace (rev (dropWhile isspace s)))"

definition lower_char :: "char \<Rightarrow> char" where
  \<comment> \<open>\<open>str.lower\<close> on one code point below 256: A..Z and the Latin-1 capitals.\<close>
  "lower_char c =
     (let n = (of_char c :: nat)
      in if (65 \<le> n \<and> n \<le> 90) \<or> (192 \<le> n \<and> n \<le> 222 \<and> n \<noteq> 215)
         then char_of (n + 32) else c)"

definition str_lower :: "string \<Rightarrow> string" where
  "str_lower s = map lower_char s"

subsection \<open>The substitution \<open>re.sub(r'<[^>]+>', '', text)\<close>\<close>

text \<open>
  \<open>match_tag_body cs\<close> matches \<open>[^>]+>\<close> at the start of \<open>cs\<close>, the text after an opening
  \<open><\<close>: the greedy class takes every character up to the first \<open>>\<close>; the match needs at
  least one such character and the closing \<open>>\<close>. It returns the text after the match.
\<close>

definition match_tag_body :: "string \<Rightarrow> string option" where
  "match_tag_body cs =
     (let body = takeWhile (\<lambda>c. c \<noteq> CHR ''>'') cs;
          rest = dropWhile (\<lambda>c. c \<noteq> CHR ''>'') cs
      in if body = [] \<or> rest = [] then None else Some (tl rest))"

lemma match_tag_body_length:
  "match_tag_body cs = Some rest \<Longrightarrow> length rest < length cs"
proof -
  assume m: "match_tag_body cs = Some rest"
  let ?d = "dropWhile (\<lambda>c. c \<noteq> CHR ''>'') cs"
  from m have d: "?d \<noteq> []" and r: "rest = tl ?d"
    by (auto simp: match_tag_body_def Let_def split: if_splits)
  from d have "length (tl ?d) < length ?d" by (cases ?d) auto
  moreover have "length ?d \<le> length cs" by (rule length_dropWhile_le)
  ultimately show ?thesis using r by simp
qed

text \<open>
  The scan of \<open>re.sub\<close>, left to right: where the pattern matches, the match is dropped and
  the scan goes on after it; elsewhere the character is copied.
\<close>

function re_sub_tags :: "string \<Rightarrow> string" where
  "re_sub_tags [] = []"
| "re_sub_tags (c # cs) =
     (if c = CHR ''<'' then
        (case match_tag_body cs of
           Some rest \<Rightarrow> re_sub_tags rest
         | None \<Rightarrow> c # re_sub_tags cs)
      else c # re_sub_tags cs)"
  by pat_completeness auto
termination
  by (relation "measure length") (auto dest: match_tag_body_length)

definition clean_html :: "string \<Rightarrow> string" where
  "clean_html text0 = (if text0 = [] then [] else str_strip (re_sub_tags text0))"

section \<open>The Collector\<close>

text \<open>
  A feed entry is the dictionary \<open>feedparser\<close> hands out; \<open>entry.get(key, default)\<close> is
  \<open>dict_get\<close>. An article is the dictionary \<open>fetch_rss\<close> builds, with its six keys.
\<close>

type_synonym entry = "string \<rightharpoonup> string"

definition dict_get :: "('k \<rightharpoonup> 'v) \<Rightarrow> 'k \<Rightarrow> 'v \<Rightarrow> 'v" where
  "dict_get d k dflt = (case d k of None \<Rightarrow> dflt | Some v \<Rightarrow> v)"

record article =
  title :: string
  url :: string
  source :: string
  summary :: string
  raw_summary :: string
  external_id :: string

record feed_source =
  src_name :: string
  src_url :: string

text \<open>
  The exceptions the program tells apart, by class. \<open>Timeout\<close> and \<open>HTTPError\<close> are
  subclasses of \<open>RequestException\<close>; every one is an \<open>Exception\<close>.
\<close>

datatype exn = Timeout | HTTPError | RequestException | ImportError | OtherException

record response =
  status_code :: nat
  content :: string

text \<open>
  The network and the feed parser as \<open>fetch_rss\<close> meets them: what \<open>requests.get\<close> does for
  a URL (an exception or a response) and what \<open>feedparser.parse\<close> does with a body (an
  exception or the list of entries).
\<close>

record world =
  requests_get :: "string \<Rightarrow> exn + response"
  feedparser_parse :: "string \<Rightarrow> exn + entry list"

definition raise_for_status :: "nat \<Rightarrow> bool" where
  \<comment> \<open>\<open>Response.raise_for_status\<close> of the requests library raises \<open>HTTPError\<close> for the
      client errors 400..499 and the server errors 500..599, and for no other status.\<close>
  "raise_for_status st = (400 \<le> st \<and> st < 600)"

text \<open>The loop over \<open>feed.entries\<close>, with the list \<open>articles\<close> it appends to.\<close>

fun entries_loop :: "string \<Rightarrow> entry list \<Rightarrow> article list \<Rightarrow> article list" where
  "entries_loop name [] articles = articles"
| "entries_loop name (entry # rest) articles =
     (let title = dict_get entry ''title'' [];
          link = dict_get entry ''link'' [];
          raw_summary =
            (if dict_get entry ''description'' [] \<noteq> [] then dict_get entry ''description'' []
             else dict_get entry ''summary'' []);
          summary = take 500 (clean_html raw_summary);
          external_id = link
      in entries_loop name rest
           (if title \<noteq> [] \<and> link \<noteq> [] then
              articles @
              [\<lparr>title = title, url = link, source = name, summary = summary,
                raw_summary = raw_summary, external_id = external_id\<rparr>]
            else articles))"

text \<open>The body of the \<open>try\<close> block of \<open>fetch_rss\<close>: an exception, or the articles.\<close>

definition fetch_rss_try :: "world \<Rightarrow> feed_source \<Rightarrow> exn + article list" where
  "fetch_rss_try w src =
     (case requests_get w (src_url src) of
        Inl e \<Rightarrow> Inl e
      | Inr resp \<Rightarrow>
          if raise_for_status (status_code resp) then Inl HTTPError
          else (case feedparser_parse w (content resp) of
                  Inl e \<Rightarrow> Inl e
                | Inr entries \<Rightarrow> Inr (entries_loop (src_name src) entries [])))"

text \<open>
  \<open>fetch_rss\<close> with its three handlers, in the source's order: \<open>Timeout\<close>, then
  \<open>RequestException\<close> (which takes \<open>HTTPError\<close> too), then \<open>Exception\<close>. Each returns the
  empty list.
\<close>

definition fetch_rss :: "world \<Rightarrow> feed_source \<Rightarrow> article list" where
  "fetch_rss w src =
     (case fetch_rss_try w src of
        Inr articles \<Rightarrow> articles
      | Inl Timeout \<Rightarrow> []
      | Inl HTTPError \<Rightarrow> []
      | Inl RequestException \<Rightarrow> []
      | Inl _ \<Rightarrow> [])"

text \<open>
  The collecting loop of \<open>main\<close>: \<open>all_articles.extend(fetch_rss(source))\<close> for each
  source in turn. The world may differ from one request to the next, so the loop takes
  the world at each position: \<open>net i\<close> is the world the \<open>i\<close>-th request (counted from 1,
  as \<open>enumerate(SOURCES, 1)\<close> does) meets.
\<close>

fun main_collect :: "(nat \<Rightarrow> world) \<Rightarrow> nat \<Rightarrow> feed_source list \<Rightarrow> article list \<Rightarrow> article list" where
  "main_collect net i [] all_articles = all_articles"
| "main_collect net i (src # rest) all_articles =
     main_collect net (Suc i) rest (all_articles @ fetch_rss (net i) src)"

section \<open>Configuration\<close>

text \<open>
  The process environment is a dictionary of strings; \<open>os.getenv(key, default)\<close> reads
  it. The module reads \<open>GROQ_API_KEY\<close> and \<open>ENABLE_AI_SUMMARY\<close> once, when it is loaded.
\<close>

type_synonym environ = "string \<rightharpoonup> string"

definition os_getenv :: "environ \<Rightarrow> string \<Rightarrow> string \<Rightarrow> string" where
  "os_getenv env k dflt = (case env k of None \<Rightarrow> dflt | Some v \<Rightarrow> v)"

definition GROQ_API_KEY :: "environ \<Rightarrow> string" where
  "GROQ_API_KEY env = os_getenv env ''GROQ_API_KEY'' []"

definition ENABLE_AI_SUMMARY :: "environ \<Rightarrow> bool" where
  "ENABLE_AI_SUMMARY env =
     (let v = str_lower (os_getenv env ''ENABLE_AI_SUMMARY'' ''true'')
      in v = ''true'' \<or> v = ''1'')"

section \<open>The Summarizer\<close>

text \<open>
  The prompt is a fixed template around the title and the cleaned summary, so a request
  to the provider is these two texts. The provider as \<open>summarize_with_ai\<close> meets it:
  whether the \<open>groq\<close> library can be imported, and what \<open>chat.completions.create\<close> does
  with a request: an exception, or a response, given by the \<open>message.content\<close> of each
  of its choices (\<open>None\<close> where a choice has no content).
\<close>

record chat_request =
  prompt_title :: string
  prompt_summary :: string

record groq =
  groq_installed :: bool
  chat_create :: "chat_request \<Rightarrow> exn + string option list"

text \<open>
  The body of the \<open>try\<close> block of \<open>summarize_with_ai\<close>, with the requests it sent to the
  provider. \<open>choices[0]\<close> on an empty list and \<open>.strip()\<close> on \<open>None\<close> raise; the empty
  answer returns \<open>raw_summary\<close>.
\<close>

definition summarize_with_ai_try ::
    "groq \<Rightarrow> string \<Rightarrow> string \<Rightarrow> (exn + string) \<times> chat_request list" where
  "summarize_with_ai_try g title' raw_summary' =
     (if \<not> groq_installed g then (Inl ImportError, [])
      else
        let clean_summary =
              (if CHR ''<'' \<in> set raw_summary' then re_sub_tags raw_summary' else raw_summary');
            clean_summary = take 1000 (str_strip clean_summary);
            request = \<lparr>prompt_title = title', prompt_summary = clean_summary\<rparr>
        in (case chat_create g request of
              Inl e \<Rightarrow> (Inl e, [request])
            | Inr [] \<Rightarrow> (Inl OtherException, [request])
            | Inr (None # _) \<Rightarrow> (Inl OtherException, [request])
            | Inr (Some message_content # _) \<Rightarrow>
                (let ai_summary = str_strip message_content
                 in if ai_summary \<noteq> [] then (Inr ai_summary, [request])
                    else (Inr raw_summary', [request]))))"

text \<open>
  \<open>summarize_with_ai\<close>: without a key it returns \<open>raw_summary\<close> at once; its two
  handlers (\<open>ImportError\<close>, then \<open>Exception\<close>) both return \<open>raw_summary\<close>. The parameters
  \<open>title\<close> and \<open>raw_summary\<close> are primed here, the plain names being fields of an article.
\<close>

definition summarize_with_ai ::
    "environ \<Rightarrow> groq \<Rightarrow> string \<Rightarrow> string \<Rightarrow> string \<times> chat_request list" where
  "summarize_with_ai env g title' raw_summary' =
     (if GROQ_API_KEY env = [] then (raw_summary', [])
      else
        (case summarize_with_ai_try g title' raw_summary' of
           (Inr s, calls) \<Rightarrow> (s, calls)
         | (Inl ImportError, calls) \<Rightarrow> (raw_summary', calls)
         | (Inl _, calls) \<Rightarrow> (raw_summary', calls)))"

text \<open>
  The loop of \<open>process_articles_with_ai\<close> over \<open>enumerate(articles, 1)\<close>. The provider may
  answer differently from one call to the next: \<open>g i\<close> is the provider the \<open>i\<close>-th article
  meets. The loop returns the articles and the requests sent, in order.
\<close>

fun articles_loop ::
    "environ \<Rightarrow> (nat \<Rightarrow> groq) \<Rightarrow> nat \<Rightarrow> article list \<Rightarrow> article list \<times> chat_request list" where
  "articles_loop env g i [] = ([], [])"
| "articles_loop env g i (article # rest) =
     (let title = title article;
          raw_summary =
            (if raw_summary article \<noteq> [] then raw_summary article else summary article);
          (ai_summary, calls) = summarize_with_ai env (g i) title raw_summary;
          (rest', calls') = articles_loop env g (Suc i) rest
      in (article\<lparr>summary := ai_summary\<rparr> # rest', calls @ calls'))"

definition process_articles_with_ai ::
    "environ \<Rightarrow> (nat \<Rightarrow> groq) \<Rightarrow> article list \<Rightarrow> article list \<times> chat_request list" where
  "process_articles_with_ai env g articles =
     (if \<not> ENABLE_AI_SUMMARY env then (articles, [])
      else if GROQ_API_KEY env = [] then (articles, [])
      else articles_loop env g 1 articles)"

section \<open>The Publisher\<close>

text \<open>
  The upload is one \<open>requests.post\<close>: an exception, or a response with its status and
  what \<open>response.json()\<close> does (an exception or the decoded value). The lines
  \<open>upload_articles\<close> prints are the messages below, one constructor for each \<open>print\<close>.
\<close>

datatype json = JNull | JBool bool | JNumber int | JString string
  | JArray "json list" | JObject "(string \<times> json) list"

record post_request =
  post_url :: string
  x_api_key :: string
  json_body :: "article list"

record post_response =
  post_status :: nat
  post_json :: "exn + json"

datatype message =
    MsgUploading nat
  | MsgUploadOk json json
  | MsgHttpError
  | MsgApiKeyError
  | MsgNetworkError

definition json_get :: "(string \<times> json) list \<Rightarrow> string \<Rightarrow> json \<Rightarrow> json" where
  \<comment> \<open>\<open>result.get(key, default)\<close> on a decoded object: the last of repeated keys stands.\<close>
  "json_get kvs k dflt = (case map_of (rev kvs) k of None \<Rightarrow> dflt | Some v \<Rightarrow> v)"

text \<open>
  The body of the \<open>try\<close> block of \<open>upload_articles\<close>. An exception comes with the value of
  the variable \<open>response\<close> at that point: unbound when \<open>requests.post\<close> itself raised.
  \<open>result.get\<close> on a value that is no object raises.
\<close>

definition upload_articles_try ::
    "(post_request \<Rightarrow> exn + post_response) \<Rightarrow> post_request
       \<Rightarrow> ((exn \<times> post_response option) + bool) \<times> message list" where
  "upload_articles_try requests_post request =
     (case requests_post request of
        Inl e \<Rightarrow> (Inl (e, None), [])
      | Inr resp \<Rightarrow>
          if raise_for_status (post_status resp) then (Inl (HTTPError, Some resp), [])
          else (case post_json resp of
                  Inl e \<Rightarrow> (Inl (e, Some resp), [])
                | Inr (JObject result) \<Rightarrow>
                    (Inr True,
                     [MsgUploadOk (json_get result ''inserted'' (JNumber 0))
                                  (json_get result ''skipped'' (JNumber 0))])
                | Inr _ \<Rightarrow> (Inl (OtherException, Some resp), [])))"

text \<open>
  \<open>upload_articles\<close>: the empty batch succeeds with no request. The \<open>HTTPError\<close> handler
  prints, reads \<open>response.status_code\<close> (which raises when \<open>response\<close> is unbound) and
  prints the key message for 401; the \<open>RequestException\<close> handler prints the network
  message; both return \<open>False\<close>. Any other exception leaves the function.
\<close>

definition upload_articles ::
    "string \<Rightarrow> string \<Rightarrow> (post_request \<Rightarrow> exn + post_response) \<Rightarrow> article list
       \<Rightarrow> (exn + bool) \<times> message list" where
  "upload_articles api_url api_key requests_post articles =
     (if articles = [] then (Inr True, [])
      else
        let request = \<lparr>post_url = api_url, x_api_key = api_key, json_body = articles\<rparr>;
            started = [MsgUploading (length articles)]
        in (case upload_articles_try requests_post request of
              (Inr ok, out) \<Rightarrow> (Inr ok, started @ out)
            | (Inl (HTTPError, None), out) \<Rightarrow>
                (Inl OtherException, started @ out @ [MsgHttpError])
            | (Inl (HTTPError, Some resp), out) \<Rightarrow>
                (Inr False,
                 started @ out @ [MsgHttpError] @
                 (if post_status resp = 401 then [MsgApiKeyError] else []))
            | (Inl (Timeout, _), out) \<Rightarrow> (Inr False, started @ out @ [MsgNetworkError])
            | (Inl (RequestException, _), out) \<Rightarrow> (Inr False, started @ out @ [MsgNetworkError])
            | (Inl (e, _), out) \<Rightarrow> (Inl e, started @ out)))"

section \<open>Notions of the specification\<close>

text \<open>
  The Collector, entry by entry: the text \<open>fetch_rss\<close> extracts as \<open>raw_summary\<close>, the record
  it builds for an entry, and the test \<open>if title and link\<close> that keeps the entry.
\<close>

definition extracted_summary :: "entry \<Rightarrow> string" where
  "extracted_summary e =
     (if dict_get e ''description'' [] \<noteq> [] then dict_get e ''description'' []
      else dict_get e ''summary'' [])"

definition entry_record :: "string \<Rightarrow> entry \<Rightarrow> article" where
  "entry_record name e =
     \<lparr>title = dict_get e ''title'' [], url = dict_get e ''link'' [], source = name,
      summary = take 500 (clean_html (extracted_summary e)),
      raw_summary = extracted_summary e, external_id = dict_get e ''link'' []\<rparr>"

definition entry_kept :: "entry \<Rightarrow> bool" where
  "entry_kept e = (dict_get e ''title'' [] \<noteq> [] \<and> dict_get e ''link'' [] \<noteq> [])"

text \<open>
  A tag is what the pattern \<open><[^>]+>\<close> matches: \<open><\<close>, one or more characters other than
  \<open>>\<close>, then \<open>>\<close>. \<open>has_tag s\<close> holds when the pattern matches somewhere in \<open>s\<close>.
\<close>

fun has_tag :: "string \<Rightarrow> bool" where
  "has_tag [] = False"
| "has_tag (c # cs) = ((c = CHR ''<'' \<and> match_tag_body cs \<noteq> None) \<or> has_tag cs)"

text \<open>
  The fetch of a source fails when \<open>requests.get\<close> raises (a timeout, a network error),
  when the status is one \<open>raise_for_status\<close> raises for, or when \<open>feedparser.parse\<close> raises.
\<close>

definition fetch_fails :: "world \<Rightarrow> feed_source \<Rightarrow> bool" where
  "fetch_fails w src =
     (case requests_get w (src_url src) of
        Inl e \<Rightarrow> True
      | Inr resp \<Rightarrow>
          raise_for_status (status_code resp) \<or> isl (feedparser_parse w (content resp)))"

section \<open>Concrete inputs\<close>

text \<open>
  A world where every request is answered with status \<open>st\<close> and a body that parses to the
  entries \<open>es\<close>; a world where every request times out; four entries (one with markup
  in its description, one with a bare \<open><\<close> in its summary, one with markup and blanks
  around it, one with no link) and the
  records of the first two; a network whose second request times out; environments and
  providers for the Summarizer; ingestion endpoints for the Publisher.
\<close>

definition feed_world :: "nat \<Rightarrow> entry list \<Rightarrow> world" where
  "feed_world st es =
     \<lparr>requests_get = (\<lambda>u. Inr \<lparr>status_code = st, content = ''<rss/>''\<rparr>),
      feedparser_parse = (\<lambda>b. Inr es)\<rparr>"

definition timeout_world :: world where
  "timeout_world = \<lparr>requests_get = (\<lambda>u. Inl Timeout), feedparser_parse = (\<lambda>b. Inr [])\<rparr>"

definition example_source :: feed_source where
  "example_source = \<lparr>src_name = ''Feed'', src_url = ''http://feed/rss''\<rparr>"

definition html_entry :: entry where
  "html_entry =
     [''title'' \<mapsto> ''T'', ''link'' \<mapsto> ''http://x/1'', ''description'' \<mapsto> ''<p>Hi</p>'']"

definition less_entry :: entry where
  "less_entry = [''title'' \<mapsto> ''U'', ''link'' \<mapsto> ''http://x/2'', ''summary'' \<mapsto> ''a < b'']"

definition padded_entry :: entry where
  "padded_entry =
     [''title'' \<mapsto> ''W'', ''link'' \<mapsto> ''http://x/3'',
      ''description'' \<mapsto> ''  <p> Hi </p>  '']"

definition no_link_entry :: entry where
  "no_link_entry = [''title'' \<mapsto> ''V'', ''description'' \<mapsto> ''gone'']"

definition html_article :: article where
  "html_article =
     \<lparr>title = ''T'', url = ''http://x/1'', source = ''Feed'', summary = ''Hi'',
      raw_summary = ''<p>Hi</p>'', external_id = ''http://x/1''\<rparr>"

definition plain_article :: article where
  "plain_article =
     \<lparr>title = ''U'', url = ''http://x/2'', source = ''Feed'', summary = ''a < b'',
      raw_summary = ''a < b'', external_id = ''http://x/2''\<rparr>"

definition env_on :: environ where
  "env_on = [''GROQ_API_KEY'' \<mapsto> ''gsk'']"

definition env_off :: environ where
  "env_off = [''GROQ_API_KEY'' \<mapsto> ''gsk'', ''ENABLE_AI_SUMMARY'' \<mapsto> ''false'']"

definition groq_missing :: groq where
  "groq_missing = \<lparr>groq_installed = False, chat_create = (\<lambda>r. Inl OtherException)\<rparr>"

definition groq_failing :: groq where
  "groq_failing = \<lparr>groq_installed = True, chat_create = (\<lambda>r. Inl OtherException)\<rparr>"

definition groq_answering :: "string \<Rightarrow> groq" where
  "groq_answering s = \<lparr>groq_installed = True, chat_create = (\<lambda>r. Inr [Some s])\<rparr>"

definition flaky_net :: "nat \<Rightarrow> world" where
  "flaky_net i = (if i = 2 then timeout_world else feed_world 200 [html_entry])"

definition endpoint :: "nat \<Rightarrow> exn + json \<Rightarrow> post_request \<Rightarrow> exn + post_response" where
  "endpoint st body = (\<lambda>request. Inr \<lparr>post_status = st, post_json = body\<rparr>)"

definition endpoint_down :: "post_request \<Rightarrow> exn + post_response" where
  "endpoint_down = (\<lambda>request. Inl RequestException)"

lemmas input_defs = feed_world_def timeout_world_def example_source_def html_entry_def
  less_entry_def padded_entry_def no_link_entry_def html_article_def plain_article_def env_on_def env_off_def
  groq_missing_def groq_failing_def groq_answering_def flaky_net_def endpoint_def
  endpoint_down_def

lemmas collector_defs = fetch_rss_def fetch_rss_try_def raise_for_status_def dict_get_def
  clean_html_def str_strip_def isspace_def match_tag_body_def entry_record_def
  extracted_summary_def entry_kept_def Let_def

lemmas config_defs = ENABLE_AI_SUMMARY_def GROQ_API_KEY_def os_getenv_def str_lower_def
  lower_char_def

lemmas summarizer_defs = process_articles_with_ai_def summarize_with_ai_def
  summarize_with_ai_try_def str_strip_def isspace_def match_tag_body_def Let_def

section \<open>Facts about the tag substitution\<close>

lemma set_re_sub_tags: "set (re_sub_tags s) \<subseteq> set s"
proof (induction s rule: re_sub_tags.induct)
  case 1
  show ?case by simp
next
  case (2 c cs)
  show ?case
  proof (cases "c = CHR ''<''")
    case False
    with 2 show ?thesis by auto
  next
    case True
    show ?thesis
    proof (cases "match_tag_body cs")
      case None
      with True 2 show ?thesis by auto
    next
      case (Some rest)
      then have "rest = tl (dropWhile (\<lambda>c. c \<noteq> CHR ''>'') cs)"
        by (auto simp: match_tag_body_def Let_def split: if_splits)
      moreover have "set (tl xs) \<subseteq> set xs" for xs :: string
        by (cases xs) auto
      ultimately have "set rest \<subseteq> set cs"
        by (blast dest: set_dropWhileD)
      with True Some 2 show ?thesis by auto
    qed
  qed
qed

lemma match_tag_body_None_iff:
  "match_tag_body cs = None \<longleftrightarrow> (cs = [] \<or> hd cs = CHR ''>'' \<or> CHR ''>'' \<notin> set cs)"
  by (cases cs) (auto simp: match_tag_body_def Let_def dropWhile_eq_Nil_conv takeWhile_eq_Nil_iff)

lemma match_tag_body_re_sub_tags:
  assumes "match_tag_body cs = None"
  shows "match_tag_body (re_sub_tags cs) = None"
proof (cases cs)
  case Nil
  then show ?thesis by (simp add: match_tag_body_def)
next
  case (Cons c cs')
  show ?thesis
  proof (cases "c = CHR ''>''")
    case True
    with Cons show ?thesis by (simp add: match_tag_body_def)
  next
    case False
    with assms Cons have "CHR ''>'' \<notin> set cs"
      by (simp add: match_tag_body_None_iff)
    with set_re_sub_tags [of cs] have "CHR ''>'' \<notin> set (re_sub_tags cs)" by blast
    then show ?thesis by (simp add: match_tag_body_None_iff)
  qed
qed

lemma no_tag_re_sub_tags: "\<not> has_tag (re_sub_tags s)"
proof (induction s rule: re_sub_tags.induct)
  case 1
  show ?case by simp
next
  case (2 c cs)
  show ?case
  proof (cases "c = CHR ''<''")
    case False
    with 2 show ?thesis by simp
  next
    case True
    show ?thesis
    proof (cases "match_tag_body cs")
      case None
      with True 2 match_tag_body_re_sub_tags [OF None] show ?thesis by simp
    next
      case (Some rest)
      with True 2 show ?thesis by simp
    qed
  qed
qed

lemma has_tag_append_left: "has_tag ys \<Longrightarrow> has_tag (xs @ ys)"
  by (induction xs) auto

lemma match_tag_body_append:
  "match_tag_body cs \<noteq> None \<Longrightarrow> match_tag_body (cs @ ys) \<noteq> None"
  unfolding match_tag_body_None_iff by (cases cs) auto

lemma has_tag_append_right: "has_tag xs \<Longrightarrow> has_tag (xs @ ys)"
proof (induction xs)
  case Nil
  then show ?case by simp
next
  case (Cons c cs)
  show ?case
  proof (cases "c = CHR ''<'' \<and> match_tag_body cs \<noteq> None")
    case True
    then have "match_tag_body (cs @ ys) \<noteq> None" by (simp add: match_tag_body_append)
    with True show ?thesis by simp
  next
    case False
    with Cons.prems have "has_tag cs" by auto
    then have "has_tag (cs @ ys)" by (rule Cons.IH)
    then show ?thesis by simp
  qed
qed

lemma has_tag_shape:
  assumes "t \<noteq> []" and "CHR ''>'' \<notin> set t"
  shows "has_tag (p @ CHR ''<'' # t @ CHR ''>'' # q)"
proof -
  from assms(2) have ne: "\<forall>x\<in>set t. x \<noteq> CHR ''>''" by auto
  then have "takeWhile (\<lambda>c. c \<noteq> CHR ''>'') (t @ CHR ''>'' # q) = t"
    by simp
  moreover from ne have "dropWhile (\<lambda>c. c \<noteq> CHR ''>'') (t @ CHR ''>'' # q) = CHR ''>'' # q"
    by simp
  ultimately have "match_tag_body (t @ CHR ''>'' # q) \<noteq> None" using assms(1)
    by (simp add: match_tag_body_def)
  then have "has_tag (CHR ''<'' # t @ CHR ''>'' # q)" by simp
  then show ?thesis by (rule has_tag_append_left)
qed

lemma has_tag_iff:
  "has_tag s \<longleftrightarrow>
     (\<exists>p t q. s = p @ CHR ''<'' # t @ CHR ''>'' # q \<and> t \<noteq> [] \<and> CHR ''>'' \<notin> set t)"
proof
  assume "has_tag s"
  then show "\<exists>p t q. s = p @ CHR ''<'' # t @ CHR ''>'' # q \<and> t \<noteq> [] \<and> CHR ''>'' \<notin> set t"
  proof (induction s)
    case Nil
    then show ?case by simp
  next
    case (Cons c cs)
    show ?case
    proof (cases "c = CHR ''<'' \<and> match_tag_body cs \<noteq> None")
      case True
      let ?P = "\<lambda>c. c \<noteq> CHR ''>''"
      from True have t: "takeWhile ?P cs \<noteq> []" and d: "dropWhile ?P cs \<noteq> []"
        by (auto simp: match_tag_body_def Let_def split: if_splits)
      from d have "hd (dropWhile ?P cs) = CHR ''>''"
        using hd_dropWhile [of ?P cs] by simp
      with d have "dropWhile ?P cs = CHR ''>'' # tl (dropWhile ?P cs)"
        by (cases "dropWhile ?P cs") auto
      then have "cs = takeWhile ?P cs @ CHR ''>'' # tl (dropWhile ?P cs)"
        using takeWhile_dropWhile_id [of ?P cs] by simp
      with True have "c # cs = [] @ CHR ''<'' # takeWhile ?P cs @ CHR ''>'' # tl (dropWhile ?P cs)"
        by simp
      moreover have "CHR ''>'' \<notin> set (takeWhile ?P cs)"
        by (auto dest: set_takeWhileD)
      ultimately show ?thesis using t by blast
    next
      case False
      with Cons.prems have "has_tag cs" by auto
      from Cons.IH [OF this] obtain p t q
        where "cs = p @ CHR ''<'' # t @ CHR ''>'' # q" "t \<noteq> []" "CHR ''>'' \<notin> set t"
        by blast
      then have "c # cs = (c # p) @ CHR ''<'' # t @ CHR ''>'' # q" by simp
      with \<open>t \<noteq> []\<close> \<open>CHR ''>'' \<notin> set t\<close> show ?thesis by blast
    qed
  qed
next
  assume "\<exists>p t q. s = p @ CHR ''<'' # t @ CHR ''>'' # q \<and> t \<noteq> [] \<and> CHR ''>'' \<notin> set t"
  then show "has_tag s" by (auto intro: has_tag_shape)
qed

lemma no_tag_str_strip: "\<not> has_tag s \<Longrightarrow> \<not> has_tag (str_strip s)"
proof
  assume n: "\<not> has_tag s" and h: "has_tag (str_strip s)"
  let ?d = "dropWhile isspace s"
  have "?d = str_strip s @ rev (takeWhile isspace (rev ?d))"
    unfolding str_strip_def
    by (metis rev_append rev_rev_ident takeWhile_dropWhile_id)
  with h have "has_tag ?d" by (metis has_tag_append_right)
  then have "has_tag (takeWhile isspace s @ ?d)" by (rule has_tag_append_left)
  with n show False by simp
qed

lemma no_tag_take: "\<not> has_tag s \<Longrightarrow> \<not> has_tag (take n s)"
  using has_tag_append_right [of "take n s" "drop n s"] by auto

lemma no_tag_clean_html: "\<not> has_tag (take n (clean_html s))"
  by (rule no_tag_take) (simp add: clean_html_def no_tag_str_strip no_tag_re_sub_tags)

section \<open>Facts about the Collector\<close>

lemma entries_loop_filter:
  "entries_loop name es acc = acc @ map (entry_record name) (filter entry_kept es)"
  by (induction es arbitrary: acc)
     (simp_all add: Let_def entry_record_def entry_kept_def extracted_summary_def)

lemma fetch_rss_success:
  assumes "requests_get w (src_url src) = Inr resp"
    and "\<not> raise_for_status (status_code resp)"
    and "feedparser_parse w (content resp) = Inr entries"
  shows "fetch_rss w src = map (entry_record (src_name src)) (filter entry_kept entries)"
  using assms by (simp add: fetch_rss_def fetch_rss_try_def entries_loop_filter)

lemma fetch_rss_records:
  "a \<in> set (fetch_rss w src) \<Longrightarrow> \<exists>e. a = entry_record (src_name src) e"
  by (auto simp: fetch_rss_def fetch_rss_try_def entries_loop_filter
           split: sum.splits if_splits exn.splits)

lemma fetch_fails_raises: "fetch_fails w src \<longleftrightarrow> isl (fetch_rss_try w src)"
  by (auto simp: fetch_fails_def fetch_rss_try_def split: sum.splits)

lemma fetch_rss_caught: "isl (fetch_rss_try w src) \<Longrightarrow> fetch_rss w src = []"
  by (auto simp: fetch_rss_def split: sum.splits exn.splits)

lemma main_collect_append:
  "main_collect net i (xs @ ys) acc =
     main_collect net (i + length xs) ys (main_collect net i xs acc)"
  by (induction xs arbitrary: i acc) simp_all

lemma main_collect_acc:
  "main_collect net i xs acc = acc @ main_collect net i xs []"
proof (induction xs arbitrary: i acc)
  case Nil
  show ?case by simp
next
  case (Cons x xs)
  show ?case
    using Cons [of "Suc i" "acc @ fetch_rss (net i) x"] Cons [of "Suc i" "fetch_rss (net i) x"]
    by simp
qed

section \<open>Facts about the flag\<close>

lemma of_char_eq_nat_iff: "n < 256 \<Longrightarrow> (of_char c = (n::nat)) = (c = char_of n)"
  by (auto simp: char_of_eq_iff take_bit_eq_mod)

lemma of_char_lower_char:
  "(of_char (lower_char c) :: nat) =
     (if (65 \<le> (of_char c :: nat) \<and> (of_char c :: nat) \<le> 90)
         \<or> (192 \<le> (of_char c :: nat) \<and> (of_char c :: nat) \<le> 222 \<and> (of_char c :: nat) \<noteq> 215)
      then of_char c + 32 else of_char c)"
  by (simp add: lower_char_def Let_def)

lemma lower_char_eq_lower:
  assumes "97 \<le> (m::nat)" and "m \<le> 122"
  shows "lower_char c = char_of m \<longleftrightarrow> c = char_of m \<or> c = char_of (m - 32)"
proof -
  have "lower_char c = char_of m \<longleftrightarrow> (of_char (lower_char c) :: nat) = m"
    using assms by (simp add: of_char_eq_nat_iff)
  also have "\<dots> \<longleftrightarrow> (of_char c :: nat) = m \<or> (of_char c :: nat) = m - 32"
    using assms unfolding of_char_lower_char by (simp split: if_splits) arith
  also have "\<dots> \<longleftrightarrow> c = char_of m \<or> c = char_of (m - 32)"
    using assms by (simp add: of_char_eq_nat_iff)
  finally show ?thesis .
qed


lemma char_codes:
  "char_of (116::nat) = CHR ''t''" "char_of (84::nat) = CHR ''T''"
  "char_of (114::nat) = CHR ''r''" "char_of (82::nat) = CHR ''R''"
  "char_of (117::nat) = CHR ''u''" "char_of (85::nat) = CHR ''U''"
  "char_of (101::nat) = CHR ''e''" "char_of (69::nat) = CHR ''E''"
  "char_of (49::nat) = CHR ''1''"
  by (simp_all add: char_of_eq_iff take_bit_eq_mod)

lemma lower_char_true:
  "lower_char c = CHR ''t'' \<longleftrightarrow> c = CHR ''t'' \<or> c = CHR ''T''"
  "lower_char c = CHR ''r'' \<longleftrightarrow> c = CHR ''r'' \<or> c = CHR ''R''"
  "lower_char c = CHR ''u'' \<longleftrightarrow> c = CHR ''u'' \<or> c = CHR ''U''"
  "lower_char c = CHR ''e'' \<longleftrightarrow> c = CHR ''e'' \<or> c = CHR ''E''"
  using lower_char_eq_lower [of 116 c] lower_char_eq_lower [of 114 c]
    lower_char_eq_lower [of 117 c] lower_char_eq_lower [of 101 c]
  by (simp_all add: char_codes)

lemma lower_char_one: "lower_char c = CHR ''1'' \<longleftrightarrow> c = CHR ''1''"
proof -
  have "lower_char c = CHR ''1'' \<longleftrightarrow> (of_char (lower_char c) :: nat) = 49"
    by (simp add: of_char_eq_nat_iff char_codes)
  also have "\<dots> \<longleftrightarrow> (of_char c :: nat) = 49"
    unfolding of_char_lower_char by (simp split: if_splits)
  also have "\<dots> \<longleftrightarrow> c = CHR ''1''"
    by (simp add: of_char_eq_nat_iff char_codes)
  finally show ?thesis .
qed


lemma str_lower_true_iff:
  "str_lower v = ''true'' \<longleftrightarrow>
     (\<exists>a b c d. v = [a, b, c, d] \<and> a \<in> {CHR ''t'', CHR ''T''} \<and> b \<in> {CHR ''r'', CHR ''R''}
        \<and> c \<in> {CHR ''u'', CHR ''U''} \<and> d \<in> {CHR ''e'', CHR ''E''})"
proof
  assume "str_lower v = ''true''"
  then obtain a b c d where v: "v = [a, b, c, d]"
    and "lower_char a = CHR ''t''" "lower_char b = CHR ''r''"
    and "lower_char c = CHR ''u''" "lower_char d = CHR ''e''"
    unfolding str_lower_def by (auto simp: map_eq_Cons_conv)
  then have "a \<in> {CHR ''t'', CHR ''T''} \<and> b \<in> {CHR ''r'', CHR ''R''}
        \<and> c \<in> {CHR ''u'', CHR ''U''} \<and> d \<in> {CHR ''e'', CHR ''E''}"
    by (simp add: lower_char_true)
  with v show "\<exists>a b c d. v = [a, b, c, d] \<and> a \<in> {CHR ''t'', CHR ''T''} \<and> b \<in> {CHR ''r'', CHR ''R''}
        \<and> c \<in> {CHR ''u'', CHR ''U''} \<and> d \<in> {CHR ''e'', CHR ''E''}"
    by blast
next
  assume "\<exists>a b c d. v = [a, b, c, d] \<and> a \<in> {CHR ''t'', CHR ''T''} \<and> b \<in> {CHR ''r'', CHR ''R''}
        \<and> c \<in> {CHR ''u'', CHR ''U''} \<and> d \<in> {CHR ''e'', CHR ''E''}"
  then obtain a b c d where v: "v = [a, b, c, d]"
    and "lower_char a = CHR ''t''" "lower_char b = CHR ''r''"
    and "lower_char c = CHR ''u''" "lower_char d = CHR ''e''"
    unfolding lower_char_true by blast
  then show "str_lower v = ''true''" by (simp add: str_lower_def)
qed

lemma str_lower_one_iff: "str_lower v = ''1'' \<longleftrightarrow> v = ''1''"
proof
  assume "str_lower v = ''1''"
  then obtain a where "v = [a]" and "lower_char a = CHR ''1''"
    unfolding str_lower_def by (auto simp: map_eq_Cons_conv)
  then show "v = ''1''" by (simp add: lower_char_one)
next
  assume "v = ''1''"
  then show "str_lower v = ''1''" by (simp add: str_lower_def lower_char_one)
qed

section \<open>Facts about the Summarizer\<close>

lemma articles_loop_frame:
  "length (fst (articles_loop env g i articles)) = length articles \<and>
   map title (fst (articles_loop env g i articles)) = map title articles \<and>
   map url (fst (articles_loop env g i articles)) = map url articles \<and>
   map source (fst (articles_loop env g i articles)) = map source articles \<and>
   map raw_summary (fst (articles_loop env g i articles)) = map raw_summary articles \<and>
   map external_id (fst (articles_loop env g i articles)) = map external_id articles"
  by (induction articles arbitrary: i) (simp_all add: Let_def split_beta)

text \<open>
  What the fallback of the Summarizer writes: \<open>summarize_with_ai\<close> returns its argument
  when the \<open>try\<close> block raises and when the answer is blank, and the loop stores that
  argument, the \<open>raw_summary\<close> of the article when it has one, as the new summary.
\<close>

lemma summarize_with_ai_failure:
  "isl (fst (summarize_with_ai_try g t r)) \<Longrightarrow> fst (summarize_with_ai env g t r) = r"
  by (cases "summarize_with_ai_try g t r")
     (auto simp: summarize_with_ai_def split: sum.splits exn.splits)

lemma summarize_with_ai_blank:
  "groq_installed g \<Longrightarrow> chat_create g request = Inr (Some s # others) \<Longrightarrow> str_strip s = [] \<Longrightarrow>
   request = \<lparr>prompt_title = t, prompt_summary = take 1000 (str_strip
      (if CHR ''<'' \<in> set r then re_sub_tags r else r))\<rparr> \<Longrightarrow>
   fst (summarize_with_ai env g t r) = r"
  by (simp add: summarize_with_ai_def summarize_with_ai_try_def Let_def)

lemma process_failure_writes_raw_summary:
  assumes "ENABLE_AI_SUMMARY env" and "GROQ_API_KEY env \<noteq> []"
    and "isl (fst (summarize_with_ai_try (g 1) (title a) (raw_summary a)))"
    and "raw_summary a \<noteq> []"
  shows "map summary (fst (process_articles_with_ai env g [a])) = [raw_summary a]"
  using assms summarize_with_ai_failure [of "g 1" "title a" "raw_summary a" env]
  by (simp add: process_articles_with_ai_def Let_def split_beta)

section \<open>The properties\<close>

text \<open>
  C6. When the feed was fetched and parsed, \<open>fetch_rss\<close> returns the records of exactly the
  entries whose extracted title and link are both non-empty, in the order of the feed.
\<close>

theorem collector_keeps_well_formed_entries:
  assumes "requests_get w (src_url src) = Inr resp"
    and "\<not> raise_for_status (status_code resp)"
    and "feedparser_parse w (content resp) = Inr entries"
  shows "fetch_rss w src = map (entry_record (src_name src)) (filter entry_kept entries)"
  using assms by (rule fetch_rss_success)

theorem collector_keeps_well_formed_entries_witness:
  "fetch_rss (feed_world 200 [html_entry, no_link_entry, less_entry]) example_source =
     [html_article, plain_article]"
  using collector_keeps_well_formed_entries
    [of "feed_world 200 [html_entry, no_link_entry, less_entry]" example_source
        "\<lparr>status_code = 200, content = ''<rss/>''\<rparr>" "[html_entry, no_link_entry, less_entry]"]
  by (simp add: input_defs collector_defs)

text \<open>
  C7. The summary of every record \<open>fetch_rss\<close> returns has at most 500 characters.
\<close>

theorem collector_summary_length:
  "a \<in> set (fetch_rss w src) \<Longrightarrow> length (summary a) \<le> 500"
  by (auto dest!: fetch_rss_records simp: entry_record_def)

theorem collector_summary_length_witness:
  "plain_article \<in> set (fetch_rss (feed_world 200 [less_entry]) example_source) \<and>
   length (summary plain_article) \<le> 500"
  using collector_summary_length [of plain_article "feed_world 200 [less_entry]" example_source]
  by (simp add: input_defs collector_defs)

text \<open>
  C3, as amended. The summary of every record \<open>fetch_rss\<close> returns contains no tag: no
  \<open><\<close> followed by one or more characters other than \<open>>\<close> and then \<open>>\<close>. A \<open><\<close> with no
  \<open>>\<close> after it, a \<open>>\<close> alone and the pair \<open><>\<close> are no tags and stay in the summary.
\<close>

theorem collector_summary_no_tag:
  "a \<in> set (fetch_rss w src) \<Longrightarrow>
     \<not> (\<exists>p t q. summary a = p @ CHR ''<'' # t @ CHR ''>'' # q \<and> t \<noteq> [] \<and> CHR ''>'' \<notin> set t)"
proof -
  assume "a \<in> set (fetch_rss w src)"
  then obtain e where "a = entry_record (src_name src) e"
    by (blast dest: fetch_rss_records)
  then have "\<not> has_tag (summary a)"
    by (simp add: entry_record_def no_tag_clean_html)
  then show ?thesis by (simp add: has_tag_iff)
qed

theorem collector_summary_no_tag_witness:
  "html_article \<in> set (fetch_rss (feed_world 200 [html_entry]) example_source) \<and>
   \<not> (\<exists>p t q. summary html_article = p @ CHR ''<'' # t @ CHR ''>'' # q
          \<and> t \<noteq> [] \<and> CHR ''>'' \<notin> set t)"
proof -
  have m: "html_article \<in> set (fetch_rss (feed_world 200 [html_entry]) example_source)"
    by (simp add: input_defs collector_defs)
  from collector_summary_no_tag [OF m] m show ?thesis by blast
qed

text \<open>
  C3, as stated, fails: an entry whose summary text is \<open>a < b\<close> gives a record whose
  summary contains \<open><\<close>.
\<close>

theorem collector_summary_markup_counterexample:
  "fetch_rss (feed_world 200 [less_entry]) example_source = [plain_article] \<and>
   CHR ''<'' \<in> set (summary plain_article)"
  by (simp add: input_defs collector_defs)




text \<open>
  C5, as amended. When the fetch of a source fails (the request times out or raises a
  network error, the status is a 4xx or a 5xx, or the body fails to parse) the \<open>try\<close>
  block raises, \<open>fetch_rss\<close> catches it and returns no record, and the loop of \<open>main\<close> goes
  on: its result is that of the sources before, followed by that of the sources after.
\<close>

theorem collector_failure_isolated:
  assumes "fetch_fails (net (i + length earlier)) src"
  shows "isl (fetch_rss_try (net (i + length earlier)) src) \<and>
         fetch_rss (net (i + length earlier)) src = [] \<and>
         main_collect net i (earlier @ src # later) [] =
           main_collect net i earlier [] @ main_collect net (Suc (i + length earlier)) later []"
proof -
  from assms have r: "isl (fetch_rss_try (net (i + length earlier)) src)"
    by (simp add: fetch_fails_raises)
  then have e: "fetch_rss (net (i + length earlier)) src = []"
    by (rule fetch_rss_caught)
  have "main_collect net i (earlier @ src # later) [] =
          main_collect net (Suc (i + length earlier)) later (main_collect net i earlier [])"
    using e by (simp add: main_collect_append)
  also have "\<dots> = main_collect net i earlier [] @ main_collect net (Suc (i + length earlier)) later []"
    by (rule main_collect_acc)
  finally show ?thesis using r e by simp
qed

theorem collector_failure_isolated_witness:
  "fetch_fails (flaky_net 2) example_source \<and>
   fetch_rss (flaky_net 2) example_source = [] \<and>
   main_collect flaky_net 1 [example_source, example_source, example_source] [] =
     [html_article, html_article]"
proof -
  have f: "fetch_fails (flaky_net (1 + length [example_source])) example_source"
    by (simp add: flaky_net_def fetch_fails_def input_defs)
  from collector_failure_isolated
         [of flaky_net 1 "[example_source]" example_source "[example_source]", OF f] f
  show ?thesis
    by (simp add: flaky_net_def input_defs collector_defs)
qed

text \<open>
  C5, as stated, fails for a status that is not 2xx and not an error for
  \<open>raise_for_status\<close>: a 300 answer whose body parses gives a record.
\<close>

theorem collector_non_2xx_counterexample:
  "requests_get (feed_world 300 [html_entry]) (src_url example_source) =
     Inr \<lparr>status_code = 300, content = ''<rss/>''\<rparr> \<and>
   fetch_rss (feed_world 300 [html_entry]) example_source = [html_article]"
  by (simp add: input_defs collector_defs)

text \<open>
  C9. \<open>process_articles_with_ai\<close> returns as many articles as it is given, in the same
  order, and each with the title, url, source, raw_summary and external_id it had.
\<close>

theorem summarizer_frame:
  "length (fst (process_articles_with_ai env g articles)) = length articles \<and>
   map title (fst (process_articles_with_ai env g articles)) = map title articles \<and>
   map url (fst (process_articles_with_ai env g articles)) = map url articles \<and>
   map source (fst (process_articles_with_ai env g articles)) = map source articles \<and>
   map raw_summary (fst (process_articles_with_ai env g articles)) = map raw_summary articles \<and>
   map external_id (fst (process_articles_with_ai env g articles)) = map external_id articles"
  using articles_loop_frame [of env g 1 articles]
  by (simp add: process_articles_with_ai_def)

text \<open>
  C4. With the flag off, or with no key, \<open>process_articles_with_ai\<close> returns the articles
  it is given and sends no request to the provider.
\<close>

theorem summarizer_disabled_identity:
  "\<not> ENABLE_AI_SUMMARY env \<or> GROQ_API_KEY env = [] \<Longrightarrow>
     process_articles_with_ai env g articles = (articles, [])"
  by (auto simp: process_articles_with_ai_def)

theorem summarizer_disabled_identity_witness:
  "\<not> ENABLE_AI_SUMMARY env_off \<and> GROQ_API_KEY Map.empty = [] \<and>
   process_articles_with_ai env_off (\<lambda>i. groq_answering ''AI'') [html_article, plain_article]
     = ([html_article, plain_article], []) \<and>
   process_articles_with_ai Map.empty (\<lambda>i. groq_answering ''AI'') [html_article, plain_article]
     = ([html_article, plain_article], [])"
proof -
  have off: "\<not> ENABLE_AI_SUMMARY env_off" and nokey: "GROQ_API_KEY Map.empty = []"
    by (simp_all add: config_defs input_defs)
  from off have 1: "\<not> ENABLE_AI_SUMMARY env_off \<or> GROQ_API_KEY env_off = []" by simp
  from nokey have 2: "\<not> ENABLE_AI_SUMMARY Map.empty \<or> GROQ_API_KEY Map.empty = []" by simp
  from summarizer_disabled_identity [OF 1] summarizer_disabled_identity [OF 2] off nokey
  show ?thesis by simp
qed

text \<open>
  C1. The code at an article of the Collector whose description carries markup, with the
  flag on and a key set: when the library is missing, when the call raises and when the
  answer is blank, the summary \<open>Hi\<close> of the article is replaced by its \<open>raw_summary\<close>,
  markup included. The article beside it, whose two fields agree, keeps its summary.
\<close>

theorem summarizer_fallback_overwrites_summary:
  "fetch_rss (feed_world 200 [html_entry, less_entry]) example_source
     = [html_article, plain_article] \<and>
   map summary [html_article, plain_article] = [''Hi'', ''a < b''] \<and>
   ENABLE_AI_SUMMARY env_on \<and> GROQ_API_KEY env_on \<noteq> [] \<and>
   map summary (fst (process_articles_with_ai env_on (\<lambda>i. groq_missing)
     [html_article, plain_article])) = [''<p>Hi</p>'', ''a < b''] \<and>
   map summary (fst (process_articles_with_ai env_on (\<lambda>i. groq_failing)
     [html_article, plain_article])) = [''<p>Hi</p>'', ''a < b''] \<and>
   map summary (fst (process_articles_with_ai env_on (\<lambda>i. groq_answering '' '')
     [html_article, plain_article])) = [''<p>Hi</p>'', ''a < b'']"
  by (simp add: config_defs summarizer_defs input_defs collector_defs)

text \<open>
  C8. When the endpoint answers the upload with status 401, \<open>upload_articles\<close> returns
  \<open>False\<close> and prints the HTTP error and then the key message; and whatever the endpoint
  does, the key message is printed only when it answered 401.
\<close>

theorem publisher_401_credential_diagnostic:
  assumes "articles \<noteq> []"
    and "requests_post \<lparr>post_url = api_url, x_api_key = api_key, json_body = articles\<rparr> = Inr resp"
    and "post_status resp = 401"
  shows "upload_articles api_url api_key requests_post articles =
           (Inr False, [MsgUploading (length articles), MsgHttpError, MsgApiKeyError]) \<and>
         (\<forall>other. MsgApiKeyError \<in> set (snd (upload_articles api_url api_key other articles)) \<longrightarrow>
            (\<exists>r. other \<lparr>post_url = api_url, x_api_key = api_key, json_body = articles\<rparr> = Inr r
                 \<and> post_status r = 401))"
proof
  from assms show "upload_articles api_url api_key requests_post articles =
           (Inr False, [MsgUploading (length articles), MsgHttpError, MsgApiKeyError])"
    by (simp add: upload_articles_def upload_articles_try_def raise_for_status_def)
next
  show "\<forall>other. MsgApiKeyError \<in> set (snd (upload_articles api_url api_key other articles)) \<longrightarrow>
            (\<exists>r. other \<lparr>post_url = api_url, x_api_key = api_key, json_body = articles\<rparr> = Inr r
                 \<and> post_status r = 401)"
    by (auto simp: upload_articles_def upload_articles_try_def Let_def
             split: if_splits sum.splits prod.splits exn.splits option.splits json.splits)
qed

theorem publisher_401_credential_diagnostic_witness:
  "upload_articles ''http://api/add'' ''key'' (endpoint 401 (Inr JNull)) [html_article] =
     (Inr False, [MsgUploading 1, MsgHttpError, MsgApiKeyError]) \<and>
   upload_articles ''http://api/add'' ''key'' (endpoint 500 (Inr JNull)) [html_article] =
     (Inr False, [MsgUploading 1, MsgHttpError]) \<and>
   upload_articles ''http://api/add'' ''key'' endpoint_down [html_article] =
     (Inr False, [MsgUploading 1, MsgNetworkError])"
  using publisher_401_credential_diagnostic
    [of "[html_article]" "endpoint 401 (Inr JNull)" "''http://api/add''" "''key''"
        "\<lparr>post_status = 401, post_json = Inr JNull\<rparr>"]
  by (simp add: upload_articles_def upload_articles_try_def raise_for_status_def
        endpoint_def endpoint_down_def)

text \<open>
  C10. \<open>ENABLE_AI_SUMMARY\<close> is true when the variable is unset; when it is set to \<open>v\<close> it is
  true exactly when the lowercased \<open>v\<close> is \<open>true\<close> or \<open>1\<close>, that is, when \<open>v\<close> is \<open>1\<close> or
  spells \<open>true\<close> in any mix of cases. So \<open>TRUE\<close> and \<open>True\<close> enable, \<open>yes\<close> and \<open>on\<close> do not.
\<close>

theorem enable_flag_parsing:
  "ENABLE_AI_SUMMARY (env(''ENABLE_AI_SUMMARY'' := None)) \<and>
   ENABLE_AI_SUMMARY (env(''ENABLE_AI_SUMMARY'' \<mapsto> v)) =
     (str_lower v = ''true'' \<or> str_lower v = ''1'') \<and>
   ENABLE_AI_SUMMARY (env(''ENABLE_AI_SUMMARY'' \<mapsto> v)) =
     (v = ''1'' \<or>
      (\<exists>a b c d. v = [a, b, c, d] \<and> a \<in> {CHR ''t'', CHR ''T''} \<and> b \<in> {CHR ''r'', CHR ''R''}
         \<and> c \<in> {CHR ''u'', CHR ''U''} \<and> d \<in> {CHR ''e'', CHR ''E''})) \<and>
   ENABLE_AI_SUMMARY (env(''ENABLE_AI_SUMMARY'' \<mapsto> ''TRUE'')) \<and>
   ENABLE_AI_SUMMARY (env(''ENABLE_AI_SUMMARY'' \<mapsto> ''True'')) \<and>
   \<not> ENABLE_AI_SUMMARY (env(''ENABLE_AI_SUMMARY'' \<mapsto> ''yes'')) \<and>
   \<not> ENABLE_AI_SUMMARY (env(''ENABLE_AI_SUMMARY'' \<mapsto> ''on''))"
proof -
  have unset: "ENABLE_AI_SUMMARY (env(''ENABLE_AI_SUMMARY'' := None))"
    by (simp add: config_defs)
  have set_to: "ENABLE_AI_SUMMARY (env(''ENABLE_AI_SUMMARY'' \<mapsto> x)) =
      (str_lower x = ''true'' \<or> str_lower x = ''1'')" for x
    by (simp add: ENABLE_AI_SUMMARY_def os_getenv_def Let_def)
  have spelled: "ENABLE_AI_SUMMARY (env(''ENABLE_AI_SUMMARY'' \<mapsto> v)) =
     (v = ''1'' \<or>
      (\<exists>a b c d. v = [a, b, c, d] \<and> a \<in> {CHR ''t'', CHR ''T''} \<and> b \<in> {CHR ''r'', CHR ''R''}
         \<and> c \<in> {CHR ''u'', CHR ''U''} \<and> d \<in> {CHR ''e'', CHR ''E''}))"
    unfolding set_to str_lower_true_iff str_lower_one_iff by blast
  have examples:
    "ENABLE_AI_SUMMARY (env(''ENABLE_AI_SUMMARY'' \<mapsto> ''TRUE''))"
    "ENABLE_AI_SUMMARY (env(''ENABLE_AI_SUMMARY'' \<mapsto> ''True''))"
    "\<not> ENABLE_AI_SUMMARY (env(''ENABLE_AI_SUMMARY'' \<mapsto> ''yes''))"
    "\<not> ENABLE_AI_SUMMARY (env(''ENABLE_AI_SUMMARY'' \<mapsto> ''on''))"
    by (simp_all add: config_defs char_codes)
  from unset set_to [of v] spelled examples show ?thesis by blast
qed

end
